theory Spec2Isabelle
  imports Complex_Main "HOL-Library.Word" "HOL-Library.AList" "HOL-Library.Sublist"
begin

unbundle bit_operations_syntax

section \<open>Python values and exceptions\<close>

text \<open>
  The program is Python, so a parameter can hold a value of any type. The values that
  reach the functions below are integers, \<open>bytes\<close> objects, \<open>str\<close> objects and
  the class object \<open>Packet\<close>. A \<open>str\<close> is taken to be ASCII text, so that
  \<open>len\<close> counts its characters and \<open>str.encode()\<close> is the list of their codes.
\<close>

type_synonym byte = "8 word"
type_synonym bytes = "byte list"

datatype pyval = PyInt int | PyBytes bytes | PyStr string | PyPacketClass

datatype error = TypeError | AttributeError | StructError

text \<open>Sequencing of a computation that may raise: the first exception wins.\<close>

definition and_then :: "error + 'a \<Rightarrow> ('a \<Rightarrow> error + 'b) \<Rightarrow> error + 'b" where
  "and_then r f = (case r of Inl e \<Rightarrow> Inl e | Inr x \<Rightarrow> f x)"

section \<open>packet.py\<close>

subsection \<open>PacketType\<close>

definition DATA :: int where "DATA = 1"
definition ACK :: int where "ACK = 2"
definition FIN :: int where "FIN = 4"
definition SYN :: int where "SYN = 8"

subsection \<open>The Packet class\<close>

text \<open>
  The four header attributes hold whatever the caller passed to the constructor; the
  constructor only looks at \<open>data\<close>. \<open>data_length\<close> and \<open>checksum\<close> are always
  assigned integers by the class itself.
\<close>

record packet =
  seq_num :: pyval
  ack_num :: pyval
  flags :: pyval
  window_size :: pyval
  data :: bytes
  data_length :: int
  checksum :: int

definition HEADER_SIZE :: nat where
  "HEADER_SIZE = 4 + 4 + 1 + 2 + 2 + 2"

text \<open>\<open>str.encode()\<close> on ASCII text.\<close>

definition encode :: "string \<Rightarrow> bytes" where
  "encode s = map (\<lambda>c. word_of_nat (of_char c)) s"

text \<open>
  \<open>Packet.__init__\<close>. The expression
  \<open>data if isinstance(data, bytes) else data.encode()\<close> raises AttributeError for a
  value that is neither \<open>bytes\<close> nor \<open>str\<close>.
\<close>

definition Packet_init :: "pyval \<Rightarrow> pyval \<Rightarrow> pyval \<Rightarrow> pyval \<Rightarrow> pyval \<Rightarrow> error + packet" where
  "Packet_init sn an fl ws d =
     and_then
       (case d of
          PyBytes b \<Rightarrow> Inr b
        | PyStr s \<Rightarrow> Inr (encode s)
        | _ \<Rightarrow> Inl AttributeError)
       (\<lambda>b. Inr \<lparr>seq_num = sn, ack_num = an, flags = fl, window_size = ws,
                data = b, data_length = int (length b), checksum = 0\<rparr>)"

subsection \<open>struct.pack and struct.unpack, network byte order\<close>

text \<open>The \<open>n\<close> bytes of an unsigned integer, most significant first.\<close>

fun pack_be :: "nat \<Rightarrow> int \<Rightarrow> bytes" where
  "pack_be 0 v = []"
| "pack_be (Suc n) v = pack_be n (v div 256) @ [word_of_int v]"

text \<open>\<open>int.from_bytes(bs, byteorder='big')\<close>, also what \<open>struct.unpack\<close> reads.\<close>

definition from_bytes_be :: "bytes \<Rightarrow> int" where
  "from_bytes_be bs = foldl (\<lambda>acc b. acc * 256 + uint b) 0 bs"

text \<open>
  One unsigned field of \<open>struct.pack\<close> (\<open>B\<close>, \<open>H\<close>, \<open>I\<close> are 1, 2 and 4 bytes):
  \<open>struct.error\<close> for an argument that is not an integer or does not fit.
\<close>

definition pack_field :: "nat \<Rightarrow> pyval \<Rightarrow> error + bytes" where
  "pack_field n v =
     (case v of
        PyInt i \<Rightarrow> if 0 \<le> i \<and> i < 256 ^ n then Inr (pack_be n i) else Inl StructError
      | _ \<Rightarrow> Inl StructError)"

text \<open>\<open>struct.pack('!IIBHH', seq_num, ack_num, flags, window_size, data_length)\<close>\<close>

definition pack_IIBHH :: "packet \<Rightarrow> error + bytes" where
  "pack_IIBHH p =
     and_then (pack_field 4 (seq_num p)) (\<lambda>b1.
     and_then (pack_field 4 (ack_num p)) (\<lambda>b2.
     and_then (pack_field 1 (flags p)) (\<lambda>b3.
     and_then (pack_field 2 (window_size p)) (\<lambda>b4.
     and_then (pack_field 2 (PyInt (data_length p))) (\<lambda>b5.
     Inr (b1 @ b2 @ b3 @ b4 @ b5))))))"

text \<open>
  \<open>Packet.calculate_checksum\<close>. \<open>hashlib.md5\<close> is the standard library's; the digest
  function is the parameter \<open>md5\<close>, and nothing below depends on which function it is.
\<close>

definition calculate_checksum :: "(bytes \<Rightarrow> bytes) \<Rightarrow> packet \<Rightarrow> error + int" where
  "calculate_checksum md5 p =
     and_then (pack_IIBHH p) (\<lambda>header.
       let content = header @ data p in
       Inr (from_bytes_be (take 2 (md5 content))))"

text \<open>
  \<open>Packet.serialize\<close> assigns \<open>self.checksum\<close> before it packs, so it returns the
  packet object as it is afterwards together with the bytes.
\<close>

definition serialize :: "(bytes \<Rightarrow> bytes) \<Rightarrow> packet \<Rightarrow> error + (packet \<times> bytes)" where
  "serialize md5 p =
     and_then (calculate_checksum md5 p) (\<lambda>c.
       let p' = p\<lparr>checksum := c\<rparr> in
       and_then (pack_IIBHH p') (\<lambda>h.
       and_then (pack_field 2 (PyInt (checksum p'))) (\<lambda>b6.
       Inr (p', (h @ b6) @ data p'))))"

text \<open>
  The body of \<open>Packet.deserialize(self, cls, raw_data)\<close> with \<open>cls\<close> the class
  \<open>Packet\<close> and \<open>raw_data\<close> a \<open>bytes\<close> object; \<open>self\<close> is not used.
  \<open>struct.unpack\<close> gets exactly 15 bytes and cannot raise.
\<close>

definition deserialize :: "bytes \<Rightarrow> error + packet option" where
  "deserialize raw_data =
     (if length raw_data < HEADER_SIZE then Inr None
      else
        let h = take HEADER_SIZE raw_data;
            sn = from_bytes_be (take 4 h);
            an = from_bytes_be (take 4 (drop 4 h));
            fl = from_bytes_be (take 1 (drop 8 h));
            ws = from_bytes_be (take 2 (drop 9 h));
            dl = from_bytes_be (take 2 (drop 11 h));
            ck = from_bytes_be (take 2 (drop 13 h));
            d = take (nat dl) (drop HEADER_SIZE raw_data)
        in and_then (Packet_init (PyInt sn) (PyInt an) (PyInt fl) (PyInt ws) (PyBytes d))
             (\<lambda>packet. Inr (Some (packet\<lparr>checksum := ck\<rparr>))))"

text \<open>
  \<open>deserialize\<close> as the function object it is: three parameters
  \<open>(self, cls, raw_data)\<close>, no decorator. \<open>len(raw_data)\<close> is evaluated first, then
  \<open>cls.HEADER_SIZE\<close>, then \<open>struct.unpack\<close>, which wants a bytes-like object.
\<close>

definition deserialize_function :: "pyval \<Rightarrow> pyval \<Rightarrow> pyval \<Rightarrow> error + packet option" where
  "deserialize_function self cls raw_data =
     (case raw_data of
        PyBytes raw \<Rightarrow>
          (case cls of PyPacketClass \<Rightarrow> deserialize raw | _ \<Rightarrow> Inl AttributeError)
      | PyStr s \<Rightarrow>
          (case cls of
             PyPacketClass \<Rightarrow> if length s < HEADER_SIZE then Inr None else Inl TypeError
           | _ \<Rightarrow> Inl AttributeError)
      | _ \<Rightarrow> Inl TypeError)"

text \<open>
  The call \<open>Packet.deserialize(a1, ..., an)\<close>: looking the attribute up on the class
  gives the plain function, and its three parameters have no defaults, so any other
  number of positional arguments raises TypeError before the body runs.
\<close>

definition Packet_deserialize :: "pyval list \<Rightarrow> error + packet option" where
  "Packet_deserialize args =
     (case args of
        [self, cls, raw_data] \<Rightarrow> deserialize_function self cls raw_data
      | _ \<Rightarrow> Inl TypeError)"

text \<open>\<open>Packet.is_corrupt\<close>\<close>

definition is_corrupt :: "(bytes \<Rightarrow> bytes) \<Rightarrow> packet \<Rightarrow> error + bool" where
  "is_corrupt md5 p =
     and_then (calculate_checksum md5 p) (\<lambda>calculated_checksum.
       Inr (calculated_checksum \<noteq> checksum p))"

text \<open>\<open>bool(self.flags & b)\<close> for a flag \<open>b\<close>: TypeError when \<open>flags\<close> is not an integer.\<close>

definition flag_set :: "int \<Rightarrow> packet \<Rightarrow> error + bool" where
  "flag_set b p = (case flags p of PyInt f \<Rightarrow> Inr (f AND b \<noteq> 0) | _ \<Rightarrow> Inl TypeError)"

definition is_ack :: "packet \<Rightarrow> error + bool" where
  "is_ack p = flag_set ACK p"

definition is_data :: "packet \<Rightarrow> error + bool" where
  "is_data p = flag_set DATA p"

text \<open>
  \<open>create_data_packet(type, seq_num, data, window_size=5)\<close> and
  \<open>create_ack_packet(ack_num, window_size=5)\<close>, with every parameter given.
\<close>

definition create_data_packet :: "pyval \<Rightarrow> pyval \<Rightarrow> pyval \<Rightarrow> pyval \<Rightarrow> error + packet" where
  "create_data_packet type' seq_num' data' window_size' =
     Packet_init seq_num' (PyInt 0) (PyInt DATA) window_size' data'"

definition create_ack_packet :: "pyval \<Rightarrow> pyval \<Rightarrow> error + packet" where
  "create_ack_packet ack_num' window_size' =
     Packet_init (PyInt 0) ack_num' (PyInt ACK) window_size' (PyBytes [])"

section \<open>rdt.py: the sender\<close>

text \<open>
  The state of an \<open>RDTSender\<close> that its methods read or write. The socket is owned by
  the caller; \<open>snd_sock\<close> is the list of datagrams handed to \<open>sock.sendto\<close>, in
  order, all to \<open>dest_addr\<close>; the socket is taken to accept every datagram.
  \<open>send_buffer\<close> is a dict, kept in insertion order as Python keeps it. Times are
  the readings of \<open>time.time()\<close>, taken as real numbers.
\<close>

record sender =
  snd_window_size :: int
  timeout :: real
  base :: int
  next_seq_num :: int
  send_buffer :: "(int \<times> packet \<times> real) list"
  packets_sent :: int
  retransmissions :: int
  acks_received_count :: int
  snd_sock :: "bytes list"

definition RDTSender_init :: "int \<Rightarrow> real \<Rightarrow> sender" where
  "RDTSender_init window_size' timeout' =
     \<lparr>snd_window_size = window_size', timeout = timeout', base = 0, next_seq_num = 0,
      send_buffer = [], packets_sent = 0, retransmissions = 0, acks_received_count = 0,
      snd_sock = []\<rparr>"

text \<open>
  \<open>_send_packet\<close>: an exception of \<open>serialize\<close> is caught and printed, nothing is
  sent. The packet object comes back as \<open>serialize\<close> left it, because the callers
  store that same object in \<open>send_buffer\<close> afterwards.
\<close>

definition send_packet :: "(bytes \<Rightarrow> bytes) \<Rightarrow> sender \<Rightarrow> packet \<Rightarrow> sender \<times> packet" where
  "send_packet md5 s pkt =
     (case serialize md5 pkt of
        Inl e \<Rightarrow> (s, pkt)
      | Inr (pkt', raw) \<Rightarrow>
          (s\<lparr>snd_sock := snd_sock s @ [raw], packets_sent := packets_sent s + 1\<rparr>, pkt'))"

text \<open>
  \<open>send_data\<close>, one chunk. The thread first waits, under the lock, until
  \<open>window_open\<close> holds. Then, with the lock released, it builds the packet with
  \<open>create_data_packet(self.next_seq_num, chunk, self.window_size)\<close>, sends it, and
  under the lock again stores it with the reading \<open>now\<close> of the clock and increments
  \<open>next_seq_num\<close>. \<open>create_data_packet\<close> has the parameters
  \<open>(type, seq_num, data, window_size=5)\<close>, so the three arguments are bound to
  \<open>type\<close>, \<open>seq_num\<close> and \<open>data\<close>, and \<open>window_size\<close> takes its default. An
  exception of the constructor leaves \<open>send_data\<close>. \<open>store_chunk\<close> is what the
  method does with the packet object once it has one.
\<close>

definition window_open :: "sender \<Rightarrow> bool" where
  "window_open s \<longleftrightarrow> next_seq_num s < base s + snd_window_size s"

definition store_chunk :: "(bytes \<Rightarrow> bytes) \<Rightarrow> sender \<Rightarrow> packet \<Rightarrow> real \<Rightarrow> sender" where
  "store_chunk md5 s pkt now =
     (let (s1, pkt') = send_packet md5 s pkt
      in s1\<lparr>send_buffer := AList.update (next_seq_num s1) (pkt', now) (send_buffer s1),
            next_seq_num := next_seq_num s1 + 1\<rparr>)"

definition send_chunk :: "(bytes \<Rightarrow> bytes) \<Rightarrow> sender \<Rightarrow> bytes \<Rightarrow> real \<Rightarrow> error + sender" where
  "send_chunk md5 s chunk now =
     and_then
       (create_data_packet (PyInt (next_seq_num s)) (PyBytes chunk)
          (PyInt (snd_window_size s)) (PyInt 5))
       (\<lambda>pkt. Inr (store_chunk md5 s pkt now))"

text \<open>
  \<open>_handle_ack\<close>. The counter is incremented before \<open>ack_num >= self.base\<close> is
  evaluated, which raises TypeError when \<open>ack_num\<close> is not an integer; the result is
  the state and the exception raised, if any.
\<close>

definition ack_range :: "int \<Rightarrow> int \<Rightarrow> (int \<times> 'a) list \<Rightarrow> (int \<times> 'a) list" where
  "ack_range lo hi buf =
     fold (\<lambda>seq b. if map_of b seq \<noteq> None then AList.delete seq b else b) [lo..hi] buf"

definition handle_ack :: "sender \<Rightarrow> packet \<Rightarrow> sender \<times> error option" where
  "handle_ack s ack_packet =
     (let s1 = s\<lparr>acks_received_count := acks_received_count s + 1\<rparr>
      in case ack_num ack_packet of
           PyInt a \<Rightarrow>
             if a \<ge> base s1
             then (s1\<lparr>send_buffer := ack_range (base s1) a (send_buffer s1),
                      base := a + 1\<rparr>, None)
             else (s1, None)
         | _ \<Rightarrow> (s1, Some TypeError))"

text \<open>
  \<open>_receive_acks\<close>, one turn of the loop in which the socket returned the datagram
  \<open>raw\<close>. Every exception is caught by \<open>except Exception\<close> and printed; the second
  component is that exception.
\<close>

definition receive_acks :: "(bytes \<Rightarrow> bytes) \<Rightarrow> sender \<Rightarrow> bytes \<Rightarrow> sender \<times> error option" where
  "receive_acks md5 s raw =
     (case Packet_deserialize [PyBytes raw] of
        Inl e \<Rightarrow> (s, Some e)
      | Inr None \<Rightarrow> (s, None)
      | Inr (Some pkt) \<Rightarrow>
          (case is_ack pkt of
             Inl e \<Rightarrow> (s, Some e)
           | Inr False \<Rightarrow> (s, None)
           | Inr True \<Rightarrow>
               (case is_corrupt md5 pkt of
                  Inl e \<Rightarrow> (s, Some e)
                | Inr True \<Rightarrow> (s, None)
                | Inr False \<Rightarrow> handle_ack s pkt)))"

text \<open>
  \<open>_check_timeouts\<close>, one turn of the loop: \<open>current_time\<close> is read once, the
  timed-out entries are collected, and each is sent again and stored back with a new
  reading of the clock, \<open>stamp seq\<close>.
\<close>

definition retransmit ::
  "(bytes \<Rightarrow> bytes) \<Rightarrow> (int \<Rightarrow> real) \<Rightarrow> int \<times> packet \<Rightarrow> sender \<Rightarrow> sender" where
  "retransmit md5 stamp sp s =
     (let (seq, pkt) = sp;
          (s1, pkt') = send_packet md5 s pkt
      in s1\<lparr>send_buffer := AList.update seq (pkt', stamp seq) (send_buffer s1),
            retransmissions := retransmissions s1 + 1\<rparr>)"

definition packets_to_retransmit :: "sender \<Rightarrow> real \<Rightarrow> (int \<times> packet) list" where
  "packets_to_retransmit s current_time =
     map (\<lambda>(seq, pkt, timestamp). (seq, pkt))
       (filter (\<lambda>(seq, pkt, timestamp). current_time - timestamp > timeout s) (send_buffer s))"

definition check_timeouts :: "(bytes \<Rightarrow> bytes) \<Rightarrow> sender \<Rightarrow> real \<Rightarrow> (int \<Rightarrow> real) \<Rightarrow> sender" where
  "check_timeouts md5 s current_time stamp =
     fold (retransmit md5 stamp) (packets_to_retransmit s current_time) s"


text \<open>
  For the scanner: two packet objects that agree in every attribute but \<open>checksum\<close>
  (the only attribute \<open>serialize\<close> assigns), the datagrams the packets of a buffer
  serialize to, a buffer that holds the same packets under the same sequence numbers as
  another, and what the scanner keeps true of the state \<open>s0\<close> it started from.
\<close>

definition same_but_checksum :: "packet \<Rightarrow> packet \<Rightarrow> bool" where
  "same_but_checksum p p' \<longleftrightarrow> p' = p\<lparr>checksum := checksum p'\<rparr>"


definition buffer_kept :: "(int \<times> packet \<times> real) list \<Rightarrow> (int \<times> packet \<times> real) list \<Rightarrow> bool" where
  "buffer_kept buf0 buf \<longleftrightarrow>
     list_all2 (\<lambda>(seq, pkt, ts) (seq', pkt', ts'). seq' = seq \<and> same_but_checksum pkt pkt') buf0 buf"


text \<open>
  The window of the sender, as its methods move it. The thread in \<open>send_data\<close>, the
  ACK worker and the timer take turns on the state. Every step is the state update of
  a method, taken for every packet object the method can be handed: \<open>stored\<close> is
  what \<open>send_data\<close> does after its check of the window with the packet object it has,
  whichever it is (\<open>raised\<close>: it got none); \<open>ack\<close> is \<open>_handle_ack\<close> on a
  packet that passes the two checks \<open>_receive_acks\<close> makes before it calls the
  method. The calls that produce these packet objects, \<open>create_data_packet\<close> in
  \<open>send_data\<close> and \<open>deserialize\<close> in \<open>_receive_acks\<close>, are not part of the
  steps. The flag says whether the \<open>send_data\<close> thread has seen the window open for
  its current chunk and not yet stored the packet. \<open>_send_packet\<close> runs outside the
  lock; it touches the socket and \<open>packets_sent\<close> only, so it is taken together
  with the store.
\<close>

inductive reachable :: "(bytes \<Rightarrow> bytes) \<Rightarrow> int \<Rightarrow> real \<Rightarrow> sender \<times> bool \<Rightarrow> bool"
  for md5 :: "bytes \<Rightarrow> bytes" and W :: int and T :: real where
  start: "reachable md5 W T (RDTSender_init W T, False)"
| admit: "reachable md5 W T (s, False) \<Longrightarrow> window_open s \<Longrightarrow> reachable md5 W T (s, True)"
| stored: "reachable md5 W T (s, True) \<Longrightarrow> reachable md5 W T (store_chunk md5 s pkt now, False)"
| raised: "reachable md5 W T (s, True) \<Longrightarrow> reachable md5 W T (s, False)"
| ack: "reachable md5 W T (s, f) \<Longrightarrow> is_ack pkt = Inr True \<Longrightarrow>
     is_corrupt md5 pkt = Inr False \<Longrightarrow> reachable md5 W T (fst (handle_ack s pkt), f)"
| timer: "reachable md5 W T (s, f) \<Longrightarrow>
     reachable md5 W T (check_timeouts md5 s current_time stamp, f)"

section \<open>rdt.py: the receiver\<close>

type_synonym address = "string \<times> int"

text \<open>
  The state of an \<open>RDTReceiver\<close>. \<open>data_queue\<close> is the queue read by the
  application; \<open>rcv_sock\<close> is the list of datagrams handed to \<open>sock.sendto\<close>, each
  with its destination.
\<close>

record receiver =
  rcv_window_size :: int
  expected_seq_num :: int
  receive_buffer :: "(int \<times> packet) list"
  data_queue :: "bytes list"
  packets_received :: int
  acks_sent :: int
  duplicates_received :: int
  rcv_sock :: "(bytes \<times> address) list"

definition RDTReceiver_init :: "int \<Rightarrow> receiver" where
  "RDTReceiver_init window_size' =
     \<lparr>rcv_window_size = window_size', expected_seq_num = 0, receive_buffer = [],
      data_queue = [], packets_received = 0, acks_sent = 0, duplicates_received = 0,
      rcv_sock = []\<rparr>"

text \<open>\<open>_send_ack\<close>: an exception of \<open>serialize\<close> is caught and printed.\<close>

definition send_ack :: "(bytes \<Rightarrow> bytes) \<Rightarrow> receiver \<Rightarrow> int \<Rightarrow> address \<Rightarrow> receiver" where
  "send_ack md5 r ack_num' dest_addr =
     (let a = (if ack_num' < 0 then 0 else ack_num')
      in case and_then (create_ack_packet (PyInt a) (PyInt (rcv_window_size r))) (serialize md5) of
           Inl e \<Rightarrow> r
         | Inr (ack_packet, raw) \<Rightarrow>
             r\<lparr>rcv_sock := rcv_sock r @ [(raw, dest_addr)], acks_sent := acks_sent r + 1\<rparr>)"

text \<open>
  The loop \<open>while self.expected_seq_num in self.receive_buffer\<close> of
  \<open>_handle_data_packet\<close>.
\<close>

function deliver :: "receiver \<Rightarrow> receiver" where
  "deliver r =
     (case map_of (receive_buffer r) (expected_seq_num r) of
        None \<Rightarrow> r
      | Some pkt \<Rightarrow>
          deliver (r\<lparr>data_queue := data_queue r @ [data pkt],
                     receive_buffer := AList.delete (expected_seq_num r) (receive_buffer r),
                     expected_seq_num := expected_seq_num r + 1\<rparr>))"
  by pat_completeness auto
termination
proof (relation "measure (\<lambda>r. length (receive_buffer r))")
  show "wf (measure (\<lambda>r. length (receive_buffer r)))" by simp
next
  fix r :: receiver and pkt
  assume "map_of (receive_buffer r) (expected_seq_num r) = Some pkt"
  then have "(expected_seq_num r, pkt) \<in> set (receive_buffer r)" by (rule map_of_SomeD)
  then have "length (filter (\<lambda>(k, v). expected_seq_num r \<noteq> k) (receive_buffer r))
      < length (receive_buffer r)"
    by (intro length_filter_less [where x = "(expected_seq_num r, pkt)"]) auto
  then show "(r\<lparr>data_queue := data_queue r @ [data pkt],
        receive_buffer := AList.delete (expected_seq_num r) (receive_buffer r),
        expected_seq_num := expected_seq_num r + 1\<rparr>, r)
      \<in> measure (\<lambda>r. length (receive_buffer r))"
    by (simp add: AList.delete_eq)
qed

text \<open>
  \<open>_handle_data_packet\<close>. An exception of \<open>is_corrupt\<close> leaves the method before
  anything is changed. When \<open>is_corrupt\<close> returns, \<open>seq_num\<close> was packed as an
  unsigned integer, so the comparison with \<open>expected_seq_num\<close> cannot raise; the last
  case is there for totality only.
\<close>

definition handle_data_packet ::
  "(bytes \<Rightarrow> bytes) \<Rightarrow> receiver \<Rightarrow> packet \<Rightarrow> address \<Rightarrow> error + receiver" where
  "handle_data_packet md5 r pkt sender_addr =
     and_then (is_corrupt md5 pkt) (\<lambda>corrupt.
       if corrupt then Inr r
       else
         (case seq_num pkt of
            PyInt sn \<Rightarrow>
              let r1 = r\<lparr>packets_received := packets_received r + 1\<rparr>
              in if sn < expected_seq_num r1
                 then
                   let r2 = r1\<lparr>duplicates_received := duplicates_received r1 + 1\<rparr>;
                       a = max 0 (expected_seq_num r2 - 1)
                   in Inr (send_ack md5 r2 a sender_addr)
                 else
                   let r2 = r1\<lparr>receive_buffer := AList.update sn pkt (receive_buffer r1)\<rparr>;
                       r3 = deliver r2;
                       a = max 0 (expected_seq_num r3 - 1)
                   in Inr (send_ack md5 r3 a sender_addr)
          | _ \<Rightarrow> Inl TypeError))"

text \<open>
  \<open>_receive_packets\<close>, one turn of the loop in which the socket returned the datagram
  \<open>raw\<close> from \<open>sender_addr\<close>; the second component is the exception caught and
  printed by \<open>except Exception\<close>, if any.
\<close>

definition receive_packets ::
  "(bytes \<Rightarrow> bytes) \<Rightarrow> receiver \<Rightarrow> bytes \<Rightarrow> address \<Rightarrow> receiver \<times> error option" where
  "receive_packets md5 r raw sender_addr =
     (case Packet_deserialize [PyBytes raw] of
        Inl e \<Rightarrow> (r, Some e)
      | Inr None \<Rightarrow> (r, None)
      | Inr (Some pkt) \<Rightarrow>
          (case is_data pkt of
             Inl e \<Rightarrow> (r, Some e)
           | Inr False \<Rightarrow> (r, None)
           | Inr True \<Rightarrow>
               (case handle_data_packet md5 r pkt sender_addr of
                  Inl e \<Rightarrow> (r, Some e)
                | Inr r' \<Rightarrow> (r', None))))"

text \<open>
  The receiver run on a list of packets, each handed to \<open>_handle_data_packet\<close> in
  turn; a packet on which the method raises changes nothing.
\<close>

fun handle_all :: "(bytes \<Rightarrow> bytes) \<Rightarrow> receiver \<Rightarrow> (packet \<times> address) list \<Rightarrow> receiver" where
  "handle_all md5 r [] = r"
| "handle_all md5 r ((pkt, sender_addr) # rest) =
     (case handle_data_packet md5 r pkt sender_addr of
        Inl e \<Rightarrow> handle_all md5 r rest
      | Inr r' \<Rightarrow> handle_all md5 r' rest)"

text \<open>
  The packets a sender makes out of the chunks \<open>chunks\<close> of its input: the packet
  with sequence number \<open>i\<close> carries chunk \<open>i\<close>.
\<close>

definition carries_chunk :: "bytes list \<Rightarrow> packet \<Rightarrow> bool" where
  "carries_chunk chunks pkt =
     (case seq_num pkt of
        PyInt i \<Rightarrow> 0 \<le> i \<and> i < int (length chunks) \<and> data pkt = chunks ! nat i
      | _ \<Rightarrow> False)"

text \<open>
  What holds of a receiver fed with such packets: the queue holds the first
  \<open>expected_seq_num\<close> chunks, and every buffered packet sits under its own sequence
  number and carries that chunk.
\<close>

definition delivered_inv :: "bytes list \<Rightarrow> receiver \<Rightarrow> bool" where
  "delivered_inv chunks r \<longleftrightarrow>
     0 \<le> expected_seq_num r \<and> expected_seq_num r \<le> int (length chunks) \<and>
     data_queue r = take (nat (expected_seq_num r)) chunks \<and>
     (\<forall>(k, pkt) \<in> set (receive_buffer r). seq_num pkt = PyInt k \<and> carries_chunk chunks pkt)"

subsection \<open>The completion loop of the receiver\<close>

text \<open>
  \<open>receive_all_data\<close> runs in the application's thread while the worker fills the
  queue and advances \<open>packets_received\<close>. What one turn of its loop observes is a
  \<open>poll\<close>: the clock in the loop condition, the counter read at the top, the result
  of \<open>receive_data()\<close>, the clock read after a payload, the counter read again when
  there was none, and the clock read when the counter had advanced.
\<close>

record poll =
  t_loop :: real
  seen_before :: int
  got :: "bytes option"
  t_got :: real
  seen_after :: int
  t_arrival :: real

text \<open>\<open>if data:\<close> is false for \<open>None\<close> and for the empty \<open>bytes\<close> alike.\<close>

definition payload :: "bytes option \<Rightarrow> bytes" where
  "payload g = (case g of None \<Rightarrow> [] | Some d \<Rightarrow> d)"

text \<open>
  The two ways out of the loop: the \<open>while\<close> condition fails, and the method
  returns without a word; or the \<open>break\<close> is taken, after the method has printed
  that the transfer is complete.
\<close>

datatype ending = Timed_out | Declared_complete

text \<open>
  The loop, run on the polls it makes. The result is \<open>None\<close> while the loop has not
  ended after the polls given; otherwise it is the way the loop ended and the value
  returned.
\<close>

fun receive_loop ::
  "real \<Rightarrow> bytes \<Rightarrow> real \<Rightarrow> int \<Rightarrow> poll list \<Rightarrow> (ending \<times> bytes) option" where
  "receive_loop tmo all_data last_activity_time consecutive_empty_reads [] = None"
| "receive_loop tmo all_data last_activity_time consecutive_empty_reads (p # ps) =
     (if \<not> (t_loop p - last_activity_time < tmo) then Some (Timed_out, all_data)
      else if payload (got p) \<noteq> []
      then receive_loop tmo (all_data @ payload (got p)) (t_got p) 0 ps
      else
        let (last', empty') =
              (if seen_before p < seen_after p then (t_arrival p, 0)
               else (last_activity_time, consecutive_empty_reads + 1))
        in if empty' > 200 \<and> length all_data > 0 then Some (Declared_complete, all_data)
           else receive_loop tmo all_data last' empty' ps)"

text \<open>\<open>t0\<close> is the reading of the clock before the loop.\<close>

definition receive_all_data :: "real \<Rightarrow> real \<Rightarrow> poll list \<Rightarrow> (ending \<times> bytes) option" where
  "receive_all_data tmo t0 polls = receive_loop tmo [] t0 0 polls"

text \<open>A poll that finds no payload and no new packet.\<close>

definition idle :: "poll \<Rightarrow> bool" where
  "idle p \<longleftrightarrow> payload (got p) = [] \<and> \<not> seen_before p < seen_after p"

text \<open>
  \<open>n\<close> idle polls after time \<open>t\<close>, 0.2 seconds apart (\<open>receive_data\<close> waits 0.1
  seconds for the queue and the loop sleeps 0.1 seconds), with the counter at \<open>k\<close>.
\<close>

fun idle_polls :: "nat \<Rightarrow> real \<Rightarrow> int \<Rightarrow> poll list" where
  "idle_polls 0 t k = []"
| "idle_polls (Suc n) t k =
     \<lparr>t_loop = t + 0.2, seen_before = k, got = None, t_got = t + 0.2, seen_after = k,
      t_arrival = t + 0.2\<rparr> # idle_polls n (t + 0.2) k"

text \<open>
  The words in which the behaviour of the loop is stated, each a function of the polls
  made so far and not of the loop's variables: the bytes taken from the queue; the time
  of the last activity, which is the clock read at the last poll that was not idle, or
  \<open>t0\<close> when there was none; and the number of idle polls at the end of the polls
  made.
\<close>

definition delivered :: "poll list \<Rightarrow> bytes" where
  "delivered ps = concat (map (\<lambda>p. payload (got p)) ps)"

definition activity_time :: "poll \<Rightarrow> real" where
  "activity_time p = (if payload (got p) \<noteq> [] then t_got p else t_arrival p)"

definition last_activity :: "real \<Rightarrow> poll list \<Rightarrow> real" where
  "last_activity t0 ps =
     (let active = filter (\<lambda>p. \<not> idle p) ps
      in if active = [] then t0 else activity_time (last active))"

definition idle_run :: "poll list \<Rightarrow> nat" where
  "idle_run ps = length (takeWhile idle (rev ps))"

text \<open>
  Whether the loop stops at the poll \<open>p\<close> that follows the polls \<open>ps\<close>, and how:
  (a) the clock in the loop condition is \<open>tmo\<close> or more past the last activity; or
  (b) the poll is idle, at least one byte has been delivered, and at least 200 idle
  polls came right before it.
\<close>

definition stops :: "real \<Rightarrow> real \<Rightarrow> poll list \<Rightarrow> poll \<Rightarrow> ending option" where
  "stops tmo t0 ps p =
     (if tmo \<le> t_loop p - last_activity t0 ps then Some Timed_out
      else if idle p \<and> delivered ps \<noteq> [] \<and> 200 \<le> idle_run ps then Some Declared_complete
      else None)"

section \<open>Properties of the codec\<close>

lemma and_then_Inr [simp]: "and_then (Inr x) f = f x"
  by (simp add: and_then_def)

lemma and_then_Inl [simp]: "and_then (Inl e) f = Inl e"
  by (simp add: and_then_def)

lemma length_pack_be [simp]: "length (pack_be n v) = n"
  by (induction n arbitrary: v) simp_all

lemma pack_be_numeral:
  "pack_be (numeral k) v = pack_be (pred_numeral k) (v div 256) @ [word_of_int v]"
  by (simp add: numeral_eq_Suc)

lemma from_bytes_be_snoc: "from_bytes_be (bs @ [b]) = from_bytes_be bs * 256 + uint b"
  by (simp add: from_bytes_be_def)

lemma from_bytes_pack_be:
  "0 \<le> v \<Longrightarrow> v < 256 ^ n \<Longrightarrow> from_bytes_be (pack_be n v) = v"
proof (induction n arbitrary: v)
  case 0
  then show ?case by (simp add: from_bytes_be_def)
next
  case (Suc n)
  have "0 \<le> v div 256" using Suc.prems(1) by simp
  moreover have "v div 256 < 256 ^ n" using Suc.prems(2) by (simp add: div_less_iff_less_mult)
  ultimately have "from_bytes_be (pack_be n (v div 256)) = v div 256" by (rule Suc.IH)
  moreover have "uint (word_of_int v :: byte) = v mod 256"
    by (simp add: uint_word_of_int)
  ultimately show ?case by (simp add: from_bytes_be_snoc)
qed

lemma from_bytes_be_nonneg: "0 \<le> from_bytes_be bs"
proof (induction bs rule: rev_induct)
  case Nil
  then show ?case by (simp add: from_bytes_be_def)
next
  case (snoc b bs)
  then show ?case by (simp add: from_bytes_be_snoc)
qed

lemma from_bytes_be_bound: "from_bytes_be bs < 256 ^ length bs"
proof (induction bs rule: rev_induct)
  case Nil
  then show ?case by (simp add: from_bytes_be_def)
next
  case (snoc b bs)
  have "uint b < 256" using uint_lt2p [of b] by simp
  moreover have "from_bytes_be bs + 1 \<le> 256 ^ length bs" using snoc by simp
  then have "(from_bytes_be bs + 1) * 256 \<le> 256 ^ length bs * 256"
    by (simp only: mult_le_cancel_right) simp
  ultimately show ?case by (simp add: from_bytes_be_snoc algebra_simps)
qed

lemma from_bytes_be_take2: "from_bytes_be (take 2 bs) < 256 ^ 2"
proof -
  have "from_bytes_be (take 2 bs) < 256 ^ length (take 2 bs)" by (rule from_bytes_be_bound)
  also have "\<dots> \<le> (256::int) ^ 2" by (rule power_increasing) simp_all
  finally show ?thesis .
qed

lemma deserialize_short: "length raw < HEADER_SIZE \<Longrightarrow> deserialize raw = Inr None"
  by (simp add: deserialize_def)

lemma deserialize_long:
  "\<not> length raw < HEADER_SIZE \<Longrightarrow>
   deserialize raw =
     Inr (Some \<lparr>seq_num = PyInt (from_bytes_be (take 4 raw)),
                ack_num = PyInt (from_bytes_be (take 4 (drop 4 raw))),
                flags = PyInt (from_bytes_be (take 1 (drop 8 raw))),
                window_size = PyInt (from_bytes_be (take 2 (drop 9 raw))),
                data = take (nat (from_bytes_be (take 2 (drop 11 raw)))) (drop HEADER_SIZE raw),
                data_length = int (length (take (nat (from_bytes_be (take 2 (drop 11 raw))))
                                     (drop HEADER_SIZE raw))),
                checksum = from_bytes_be (take 2 (drop 13 raw))\<rparr>)"
  by (simp add: deserialize_def Packet_init_def Let_def HEADER_SIZE_def take_drop min_def)

lemma deserialize_function_Packet [simp]:
  "deserialize_function self PyPacketClass (PyBytes raw) = deserialize raw"
  by (simp add: deserialize_function_def)

lemma pack_IIBHH_ok:
  assumes "seq_num p = PyInt sn" "0 \<le> sn" "sn < 2 ^ 32"
    and "ack_num p = PyInt an" "0 \<le> an" "an < 2 ^ 32"
    and "flags p = PyInt fl" "0 \<le> fl" "fl < 2 ^ 8"
    and "window_size p = PyInt ws" "0 \<le> ws" "ws < 2 ^ 16"
    and "0 \<le> data_length p" "data_length p < 2 ^ 16"
  shows "pack_IIBHH p =
     Inr (pack_be 4 sn @ pack_be 4 an @ pack_be 1 fl @ pack_be 2 ws @ pack_be 2 (data_length p))"
  using assms by (simp add: pack_IIBHH_def pack_field_def)

lemma pack_IIBHH_checksum [simp]: "pack_IIBHH (p\<lparr>checksum := c\<rparr>) = pack_IIBHH p"
  by (simp add: pack_IIBHH_def)

lemma calculate_checksum_checksum [simp]:
  "calculate_checksum md5 (p\<lparr>checksum := c\<rparr>) = calculate_checksum md5 p"
  by (simp add: calculate_checksum_def)

lemma calculate_checksum_range:
  "calculate_checksum md5 p = Inr c \<Longrightarrow> 0 \<le> c \<and> c < 256 ^ 2"
  using from_bytes_be_take2 [of "md5 bs" for bs]
  by (cases "pack_IIBHH p")
     (auto simp: calculate_checksum_def Let_def from_bytes_be_nonneg)

lemma serialize_eq:
  assumes "calculate_checksum md5 p = Inr c" and "pack_IIBHH p = Inr h"
  shows "serialize md5 p = Inr (p\<lparr>checksum := c\<rparr>, (h @ pack_be 2 c) @ data p)"
  using assms calculate_checksum_range [OF assms(1)]
  by (simp add: serialize_def Let_def pack_field_def)

lemma unpack_header:
  fixes d :: bytes
  assumes "length b1 = 4" "length b2 = 4" "length b3 = 1" "length b4 = 2" "length b5 = 2"
    "length b6 = 2"
  defines "raw \<equiv> ((b1 @ b2 @ b3 @ b4 @ b5) @ b6) @ d"
  shows "take 4 raw = b1" "take 4 (drop 4 raw) = b2" "take 1 (drop 8 raw) = b3"
    "take 2 (drop 9 raw) = b4" "take 2 (drop 11 raw) = b5" "take 2 (drop 13 raw) = b6"
    "drop HEADER_SIZE raw = d" "\<not> length raw < HEADER_SIZE"
  using assms by (simp_all add: HEADER_SIZE_def)

lemma roundtrip:
  assumes "seq_num p = PyInt sn" "0 \<le> sn" "sn < 2 ^ 32"
    and "ack_num p = PyInt an" "0 \<le> an" "an < 2 ^ 32"
    and "flags p = PyInt fl" "0 \<le> fl" "fl < 2 ^ 8"
    and "window_size p = PyInt ws" "0 \<le> ws" "ws < 2 ^ 16"
    and "data_length p = int (length (data p))" "data_length p < 2 ^ 16"
  shows "\<exists>c bs. calculate_checksum md5 p = Inr c \<and>
           serialize md5 p = Inr (p\<lparr>checksum := c\<rparr>, bs) \<and>
           deserialize bs = Inr (Some (p\<lparr>checksum := c\<rparr>))"
proof -
  let ?h = "pack_be 4 sn @ pack_be 4 an @ pack_be 1 fl @ pack_be 2 ws @ pack_be 2 (data_length p)"
  have dl0: "0 \<le> data_length p" using assms(13) by simp
  have h: "pack_IIBHH p = Inr ?h"
    using assms(1-12) dl0 assms(14) by (rule pack_IIBHH_ok)
  obtain c where c: "calculate_checksum md5 p = Inr c"
    using h by (simp add: calculate_checksum_def Let_def)
  have cr: "0 \<le> c" "c < 256 ^ 2" using calculate_checksum_range [OF c] by simp_all
  let ?bs = "(?h @ pack_be 2 c) @ data p"
  have s: "serialize md5 p = Inr (p\<lparr>checksum := c\<rparr>, ?bs)"
    using c h by (rule serialize_eq)
  note u = unpack_header [of "pack_be 4 sn" "pack_be 4 an" "pack_be 1 fl" "pack_be 2 ws"
      "pack_be 2 (data_length p)" "pack_be 2 c" "data p", OF length_pack_be length_pack_be
      length_pack_be length_pack_be length_pack_be length_pack_be]
  have d: "deserialize ?bs = Inr (Some (p\<lparr>checksum := c\<rparr>))"
    unfolding deserialize_long [OF u(8)] u(1-7)
    using assms cr dl0 by (cases p) (simp add: from_bytes_pack_be del: pack_be.simps)
  from c s d show ?thesis by blast
qed

lemma serialize_ignores_checksum:
  "serialize md5 (p\<lparr>checksum := k\<rparr>) = serialize md5 p"
  by (simp add: serialize_def Let_def)

lemma is_corrupt_carried:
  "calculate_checksum md5 p = Inr c \<Longrightarrow> is_corrupt md5 (p\<lparr>checksum := k\<rparr>) = Inr (c \<noteq> k)"
  by (simp add: is_corrupt_def)

subsection \<open>deserialize: when it returns none\<close>

text \<open>
  C3. As stated the claim fails: \<open>deserialize\<close> never compares the \<open>data_length\<close>
  field with the bytes that follow the header. The buffer below is a bare 15-byte header
  whose \<open>data_length\<close> field says 5; no payload byte follows, and a packet comes back,
  with an empty payload.
\<close>

theorem deserialize_length_prefix_counterexample:
  "\<not> length [0, 0, 0, 0, 0, 0, 0, 0, 1, 0, 5, 0, 5, 0, 0 :: byte] < HEADER_SIZE
   \<and> from_bytes_be (take 2 (drop 11 [0, 0, 0, 0, 0, 0, 0, 0, 1, 0, 5, 0, 5, 0, 0 :: byte])) = 5
   \<and> length (drop HEADER_SIZE [0, 0, 0, 0, 0, 0, 0, 0, 1, 0, 5, 0, 5, 0, 0 :: byte]) = 0
   \<and> deserialize [0, 0, 0, 0, 0, 0, 0, 0, 1, 0, 5, 0, 5, 0, 0] =
       Inr (Some \<lparr>seq_num = PyInt 0, ack_num = PyInt 0, flags = PyInt 1,
                  window_size = PyInt 5, data = [], data_length = 0, checksum = 0\<rparr>)"
  by (simp add: deserialize_def HEADER_SIZE_def Packet_init_def Let_def from_bytes_be_def)

text \<open>
  C3, amended. \<open>deserialize\<close> returns none exactly when the buffer is shorter than
  15 bytes; for every longer buffer it returns a packet, and that packet's \<open>checksum\<close>
  is the two bytes at offset 13 of the buffer, read big-endian, not a recomputed value.
\<close>

theorem deserialize_none_iff_short:
  "(deserialize raw = Inr None \<longleftrightarrow> length raw < HEADER_SIZE) \<and>
   (\<not> length raw < HEADER_SIZE \<longrightarrow>
      (\<exists>p. deserialize raw = Inr (Some p) \<and>
           checksum p = from_bytes_be (take 2 (drop 13 raw))))"
proof (cases "length raw < HEADER_SIZE")
  case True
  then show ?thesis by (simp add: deserialize_short)
next
  case False
  then show ?thesis by (simp add: deserialize_long)
qed

theorem deserialize_none_iff_short_witness:
  "\<not> length [0, 0, 0, 1, 0, 0, 0, 0, 1, 0, 5, 0, 1, 171, 205, 9 :: byte] < HEADER_SIZE \<and>
   (\<exists>p. deserialize [0, 0, 0, 1, 0, 0, 0, 0, 1, 0, 5, 0, 1, 171, 205, 9] = Inr (Some p) \<and>
        checksum p = 43981) \<and>
   length [0, 0, 0, 1 :: byte] < HEADER_SIZE \<and> deserialize [0, 0, 0, 1] = Inr None"
  using deserialize_none_iff_short [of "[0, 0, 0, 1, 0, 0, 0, 0, 1, 0, 5, 0, 1, 171, 205, 9]"]
    deserialize_none_iff_short [of "[0, 0, 0, 1]"]
  by (simp add: HEADER_SIZE_def from_bytes_be_def)

subsection \<open>deserialize: the payload and its length\<close>

text \<open>
  C10. For every buffer of at least 15 bytes \<open>deserialize\<close> returns a packet whose
  \<open>data_length\<close> is the length of its \<open>data\<close>, as the constructor recomputed it. The
  payload is the slice of at most \<open>dl\<close> bytes after the header, where \<open>dl\<close> is the
  \<open>data_length\<close> field on the wire: it is shorter than \<open>dl\<close> when the buffer holds
  fewer bytes, and the bytes from offset \<open>15 + dl\<close> on change nothing.
\<close>

theorem deserialize_data_length_recomputed:
  assumes "HEADER_SIZE \<le> length raw"
  shows "\<exists>p. deserialize raw = Inr (Some p) \<and>
           data_length p = int (length (data p)) \<and>
           data p = take (nat (from_bytes_be (take 2 (drop 11 raw)))) (drop HEADER_SIZE raw) \<and>
           length (data p) =
             min (nat (from_bytes_be (take 2 (drop 11 raw)))) (length raw - HEADER_SIZE) \<and>
           deserialize (take (HEADER_SIZE + nat (from_bytes_be (take 2 (drop 11 raw)))) raw) =
             Inr (Some p)"
proof -
  let ?n = "nat (from_bytes_be (take 2 (drop 11 raw)))"
  let ?cut = "take (HEADER_SIZE + ?n) raw"
  have long: "\<not> length raw < HEADER_SIZE" using assms by simp
  have long': "\<not> length ?cut < HEADER_SIZE" using assms by simp
  have hd: "take 4 ?cut = take 4 raw" "take 4 (drop 4 ?cut) = take 4 (drop 4 raw)"
    "take 1 (drop 8 ?cut) = take 1 (drop 8 raw)" "take 2 (drop 9 ?cut) = take 2 (drop 9 raw)"
    "take 2 (drop 11 ?cut) = take 2 (drop 11 raw)" "take 2 (drop 13 ?cut) = take 2 (drop 13 raw)"
    by (simp_all add: HEADER_SIZE_def drop_take min_def)
  have tl: "take ?n (drop HEADER_SIZE ?cut) = take ?n (drop HEADER_SIZE raw)"
    by (simp add: drop_take)
  show ?thesis
    unfolding deserialize_long [OF long] deserialize_long [OF long'] hd tl
    by (simp add: min_def)
qed

theorem deserialize_data_length_recomputed_witness:
  "HEADER_SIZE \<le> length [0, 0, 0, 1, 0, 0, 0, 0, 1, 0, 5, 0, 2, 171, 205, 9, 8, 7, 6 :: byte] \<and>
   (\<exists>p. deserialize [0, 0, 0, 1, 0, 0, 0, 0, 1, 0, 5, 0, 2, 171, 205, 9, 8, 7, 6] = Inr (Some p) \<and>
        data_length p = 2 \<and> data p = [9, 8] \<and>
        deserialize [0, 0, 0, 1, 0, 0, 0, 0, 1, 0, 5, 0, 2, 171, 205, 9, 8] = Inr (Some p))"
proof -
  have long: "HEADER_SIZE \<le> length [0, 0, 0, 1, 0, 0, 0, 0, 1, 0, 5, 0, 2, 171, 205, 9, 8, 7, 6 :: byte]"
    by (simp add: HEADER_SIZE_def)
  from deserialize_data_length_recomputed [OF long]
  obtain p where "deserialize [0, 0, 0, 1, 0, 0, 0, 0, 1, 0, 5, 0, 2, 171, 205, 9, 8, 7, 6] = Inr (Some p)"
    and "data_length p = int (length (data p))" and "data p = [9, 8]"
    and "deserialize [0, 0, 0, 1, 0, 0, 0, 0, 1, 0, 5, 0, 2, 171, 205, 9, 8] = Inr (Some p)"
    by (auto simp: HEADER_SIZE_def from_bytes_be_def)
  with long show ?thesis by auto
qed

subsection \<open>serialize and deserialize round-trip\<close>

text \<open>
  C4. For a packet whose header attributes are integers that fit their wire widths and
  whose \<open>data_length\<close> is the length of its \<open>data\<close>, \<open>serialize\<close> succeeds, sets
  \<open>checksum\<close> to the computed value \<open>c\<close>, and \<open>deserialize\<close> of its bytes returns
  exactly that packet, also when \<open>deserialize\<close> is called as the function of three
  parameters it is, with the class as \<open>cls\<close>; \<open>is_corrupt\<close> of it is false. The bytes do not depend on the
  checksum the packet held before, so serializing again gives the same bytes. For any
  carried checksum \<open>k\<close>, \<open>is_corrupt\<close> is true iff \<open>k\<close> differs from the recomputed \<open>c\<close>.
\<close>

theorem serialize_deserialize_roundtrip:
  assumes "seq_num p = PyInt sn" "0 \<le> sn" "sn < 2 ^ 32"
    and "ack_num p = PyInt an" "0 \<le> an" "an < 2 ^ 32"
    and "flags p = PyInt fl" "0 \<le> fl" "fl < 2 ^ 8"
    and "window_size p = PyInt ws" "0 \<le> ws" "ws < 2 ^ 16"
    and "data_length p = int (length (data p))" "data_length p < 2 ^ 16"
  shows "\<exists>c bs. calculate_checksum md5 p = Inr c \<and>
           serialize md5 p = Inr (p\<lparr>checksum := c\<rparr>, bs) \<and>
           serialize md5 (p\<lparr>checksum := c\<rparr>) = Inr (p\<lparr>checksum := c\<rparr>, bs) \<and>
           deserialize bs = Inr (Some (p\<lparr>checksum := c\<rparr>)) \<and>
           deserialize_function self PyPacketClass (PyBytes bs) =
             Inr (Some (p\<lparr>checksum := c\<rparr>)) \<and>
           is_corrupt md5 (p\<lparr>checksum := c\<rparr>) = Inr False \<and>
           (\<forall>k. is_corrupt md5 (p\<lparr>checksum := k\<rparr>) = Inr (k \<noteq> c))"
proof -
  obtain c bs where c: "calculate_checksum md5 p = Inr c"
    and s: "serialize md5 p = Inr (p\<lparr>checksum := c\<rparr>, bs)"
    and d: "deserialize bs = Inr (Some (p\<lparr>checksum := c\<rparr>))"
    using roundtrip [OF assms] by blast
  have "serialize md5 (p\<lparr>checksum := c\<rparr>) = Inr (p\<lparr>checksum := c\<rparr>, bs)"
    using s by (simp add: serialize_ignores_checksum)
  moreover have "\<forall>k. is_corrupt md5 (p\<lparr>checksum := k\<rparr>) = Inr (k \<noteq> c)"
    using is_corrupt_carried [OF c] by auto
  ultimately show ?thesis using c s d by auto
qed

theorem serialize_deserialize_roundtrip_witness:
  "serialize (\<lambda>content. [171, 205])
     \<lparr>seq_num = PyInt 1, ack_num = PyInt 0, flags = PyInt 1, window_size = PyInt 5,
      data = [72, 105], data_length = 2, checksum = 0\<rparr> =
     Inr (\<lparr>seq_num = PyInt 1, ack_num = PyInt 0, flags = PyInt 1, window_size = PyInt 5,
           data = [72, 105], data_length = 2, checksum = 43981\<rparr>,
          [0, 0, 0, 1, 0, 0, 0, 0, 1, 0, 5, 0, 2, 171, 205, 72, 105]) \<and>
   deserialize [0, 0, 0, 1, 0, 0, 0, 0, 1, 0, 5, 0, 2, 171, 205, 72, 105] =
     Inr (Some \<lparr>seq_num = PyInt 1, ack_num = PyInt 0, flags = PyInt 1, window_size = PyInt 5,
                data = [72, 105], data_length = 2, checksum = 43981\<rparr>) \<and>
   is_corrupt (\<lambda>content. [171, 205])
     \<lparr>seq_num = PyInt 1, ack_num = PyInt 0, flags = PyInt 1, window_size = PyInt 5,
      data = [72, 105], data_length = 2, checksum = 43981\<rparr> = Inr False"
proof -
  let ?md5 = "\<lambda>content :: bytes. [171, 205 :: byte]"
  let ?p = "\<lparr>seq_num = PyInt 1, ack_num = PyInt 0, flags = PyInt 1, window_size = PyInt 5,
      data = [72, 105], data_length = 2, checksum = 0\<rparr>"
  have "\<exists>c bs. calculate_checksum ?md5 ?p = Inr c \<and>
           serialize ?md5 ?p = Inr (?p\<lparr>checksum := c\<rparr>, bs) \<and>
           serialize ?md5 (?p\<lparr>checksum := c\<rparr>) = Inr (?p\<lparr>checksum := c\<rparr>, bs) \<and>
           deserialize bs = Inr (Some (?p\<lparr>checksum := c\<rparr>)) \<and>
           deserialize_function PyPacketClass PyPacketClass (PyBytes bs) =
             Inr (Some (?p\<lparr>checksum := c\<rparr>)) \<and>
           is_corrupt ?md5 (?p\<lparr>checksum := c\<rparr>) = Inr False \<and>
           (\<forall>k. is_corrupt ?md5 (?p\<lparr>checksum := k\<rparr>) = Inr (k \<noteq> c))"
    by (rule serialize_deserialize_roundtrip
          [where sn = 1 and an = 0 and fl = 1 and ws = 5 and self = PyPacketClass])
      simp_all
  then obtain c bs where c: "calculate_checksum ?md5 ?p = Inr c"
    and s: "serialize ?md5 ?p = Inr (?p\<lparr>checksum := c\<rparr>, bs)"
    and d: "deserialize bs = Inr (Some (?p\<lparr>checksum := c\<rparr>))"
    and k: "is_corrupt ?md5 (?p\<lparr>checksum := c\<rparr>) = Inr False"
    by blast
  have cv: "c = 43981"
    using c by (simp add: calculate_checksum_def pack_IIBHH_def pack_field_def from_bytes_be_def)
  have bv: "bs = [0, 0, 0, 1, 0, 0, 0, 0, 1, 0, 5, 0, 2, 171, 205, 72, 105]"
    using s unfolding cv
    by (auto simp: serialize_def calculate_checksum_def pack_IIBHH_def pack_field_def
        from_bytes_be_def Let_def pack_be_numeral)
  show ?thesis using s d k unfolding cv bv by simp
qed

section \<open>Properties of the workers\<close>

subsection \<open>The call of deserialize in the two workers\<close>

text \<open>
  C1. \<open>deserialize\<close> is a plain function of three parameters, so the call
  \<open>Packet.deserialize(data)\<close> with the one datagram raises TypeError whatever the
  datagram is. In \<open>_receive_acks\<close> and in \<open>_receive_packets\<close> the exception is
  caught by \<open>except Exception\<close>, and the state of the sender and of the receiver is
  what it was before: no datagram is parsed and none is handled.
\<close>

theorem deserialize_call_raises:
  "Packet_deserialize [PyBytes raw] = Inl TypeError \<and>
   receive_acks md5 s raw = (s, Some TypeError) \<and>
   receive_packets md5 r raw sender_addr = (r, Some TypeError)"
  by (simp add: Packet_deserialize_def receive_acks_def receive_packets_def)


section \<open>Properties of the sender\<close>

subsection \<open>Cumulative acknowledgment\<close>

lemma delete_if_present:
  "(if map_of b seq \<noteq> None then AList.delete seq b else b) = AList.delete seq b"
  by (simp add: map_of_eq_None_iff)

lemma fold_delete_filter:
  "fold AList.delete ks buf = filter (\<lambda>(k, v). k \<notin> set ks) buf"
proof (induction ks arbitrary: buf)
  case Nil
  then show ?case by simp
next
  case (Cons k ks)
  have "filter (\<lambda>(k', v). k' \<notin> set ks) (AList.delete k buf) =
        filter (\<lambda>(k', v). k' \<notin> set (k # ks)) buf"
    by (induction buf) (auto simp: AList.delete_eq)
  with Cons.IH show ?case by simp
qed

lemma ack_range_filter:
  "ack_range lo hi buf = filter (\<lambda>(k, v). \<not> (lo \<le> k \<and> k \<le> hi)) buf"
proof -
  have "ack_range lo hi buf = fold AList.delete [lo..hi] buf"
    unfolding ack_range_def delete_if_present ..
  then show ?thesis by (simp add: fold_delete_filter)
qed

text \<open>
  C5. \<open>_handle_ack\<close> on an ACK packet with \<open>ack_num = a\<close>: if \<open>a \<ge> base\<close>, the
  buffer keeps exactly the entries whose sequence number is outside \<open>[base, a]\<close> and
  \<open>base\<close> becomes \<open>a + 1\<close>; if \<open>a < base\<close>, nothing but the counter changes. The
  counter \<open>acks_received_count\<close> is incremented in both cases, and no exception is
  raised.
\<close>

theorem handle_ack_cumulative:
  assumes "ack_num pkt = PyInt a"
  shows "(a \<ge> base s \<longrightarrow>
            handle_ack s pkt =
              (s\<lparr>acks_received_count := acks_received_count s + 1,
                 send_buffer :=
                   filter (\<lambda>(seq, entry). \<not> (base s \<le> seq \<and> seq \<le> a)) (send_buffer s),
                 base := a + 1\<rparr>, None)) \<and>
         (a < base s \<longrightarrow>
            handle_ack s pkt = (s\<lparr>acks_received_count := acks_received_count s + 1\<rparr>, None))"
  using assms by (simp add: handle_ack_def Let_def ack_range_filter)

theorem handle_ack_cumulative_witness:
  "handle_ack
     \<lparr>snd_window_size = 5, timeout = 2, base = 1, next_seq_num = 4,
      send_buffer =
        [(1, \<lparr>seq_num = PyInt 1, ack_num = PyInt 0, flags = PyInt 1, window_size = PyInt 5,
              data = [65], data_length = 1, checksum = 7\<rparr>, 1),
         (2, \<lparr>seq_num = PyInt 2, ack_num = PyInt 0, flags = PyInt 1, window_size = PyInt 5,
              data = [66], data_length = 1, checksum = 8\<rparr>, 2),
         (3, \<lparr>seq_num = PyInt 3, ack_num = PyInt 0, flags = PyInt 1, window_size = PyInt 5,
              data = [67], data_length = 1, checksum = 9\<rparr>, 3)],
      packets_sent = 3, retransmissions = 0, acks_received_count = 1, snd_sock = []\<rparr>
     \<lparr>seq_num = PyInt 0, ack_num = PyInt 2, flags = PyInt 2, window_size = PyInt 5,
      data = [], data_length = 0, checksum = 3\<rparr> =
   (\<lparr>snd_window_size = 5, timeout = 2, base = 3, next_seq_num = 4,
     send_buffer =
       [(3, \<lparr>seq_num = PyInt 3, ack_num = PyInt 0, flags = PyInt 1, window_size = PyInt 5,
             data = [67], data_length = 1, checksum = 9\<rparr>, 3)],
     packets_sent = 3, retransmissions = 0, acks_received_count = 2, snd_sock = []\<rparr>, None)
   \<and>
   handle_ack
     \<lparr>snd_window_size = 5, timeout = 2, base = 1, next_seq_num = 4,
      send_buffer =
        [(1, \<lparr>seq_num = PyInt 1, ack_num = PyInt 0, flags = PyInt 1, window_size = PyInt 5,
              data = [65], data_length = 1, checksum = 7\<rparr>, 1)],
      packets_sent = 3, retransmissions = 0, acks_received_count = 1, snd_sock = []\<rparr>
     \<lparr>seq_num = PyInt 0, ack_num = PyInt 0, flags = PyInt 2, window_size = PyInt 5,
      data = [], data_length = 0, checksum = 3\<rparr> =
   (\<lparr>snd_window_size = 5, timeout = 2, base = 1, next_seq_num = 4,
     send_buffer =
        [(1, \<lparr>seq_num = PyInt 1, ack_num = PyInt 0, flags = PyInt 1, window_size = PyInt 5,
              data = [65], data_length = 1, checksum = 7\<rparr>, 1)],
     packets_sent = 3, retransmissions = 0, acks_received_count = 2, snd_sock = []\<rparr>, None)"
  using
    handle_ack_cumulative [of
      "\<lparr>seq_num = PyInt 0, ack_num = PyInt 2, flags = PyInt 2, window_size = PyInt 5,
        data = [], data_length = 0, checksum = 3\<rparr>" 2
      "\<lparr>snd_window_size = 5, timeout = 2, base = 1, next_seq_num = 4,
      send_buffer =
        [(1, \<lparr>seq_num = PyInt 1, ack_num = PyInt 0, flags = PyInt 1, window_size = PyInt 5,
              data = [65], data_length = 1, checksum = 7\<rparr>, 1),
         (2, \<lparr>seq_num = PyInt 2, ack_num = PyInt 0, flags = PyInt 1, window_size = PyInt 5,
              data = [66], data_length = 1, checksum = 8\<rparr>, 2),
         (3, \<lparr>seq_num = PyInt 3, ack_num = PyInt 0, flags = PyInt 1, window_size = PyInt 5,
              data = [67], data_length = 1, checksum = 9\<rparr>, 3)],
      packets_sent = 3, retransmissions = 0, acks_received_count = 1, snd_sock = []\<rparr>"]
    handle_ack_cumulative [of
      "\<lparr>seq_num = PyInt 0, ack_num = PyInt 0, flags = PyInt 2, window_size = PyInt 5,
        data = [], data_length = 0, checksum = 3\<rparr>" 0
      "\<lparr>snd_window_size = 5, timeout = 2, base = 1, next_seq_num = 4,
      send_buffer =
        [(1, \<lparr>seq_num = PyInt 1, ack_num = PyInt 0, flags = PyInt 1, window_size = PyInt 5,
              data = [65], data_length = 1, checksum = 7\<rparr>, 1)],
      packets_sent = 3, retransmissions = 0, acks_received_count = 1, snd_sock = []\<rparr>"]
  by simp

subsection \<open>The window\<close>

lemma send_packet_window [simp]:
  "base (fst (send_packet md5 s pkt)) = base s"
  "next_seq_num (fst (send_packet md5 s pkt)) = next_seq_num s"
  "snd_window_size (fst (send_packet md5 s pkt)) = snd_window_size s"
  by (simp_all add: send_packet_def split: sum.splits prod.splits)

lemma retransmit_window [simp]:
  "base (retransmit md5 stamp sp s) = base s"
  "next_seq_num (retransmit md5 stamp sp s) = next_seq_num s"
  "snd_window_size (retransmit md5 stamp sp s) = snd_window_size s"
  by (simp_all add: retransmit_def split_beta Let_def)

lemma fold_retransmit_window:
  "base (fold (retransmit md5 stamp) sps s) = base s \<and>
   next_seq_num (fold (retransmit md5 stamp) sps s) = next_seq_num s \<and>
   snd_window_size (fold (retransmit md5 stamp) sps s) = snd_window_size s"
  by (induction sps arbitrary: s) simp_all

lemma check_timeouts_window [simp]:
  "base (check_timeouts md5 s current_time stamp) = base s"
  "next_seq_num (check_timeouts md5 s current_time stamp) = next_seq_num s"
  "snd_window_size (check_timeouts md5 s current_time stamp) = snd_window_size s"
  by (simp_all add: check_timeouts_def fold_retransmit_window)




text \<open>
  The call in \<open>send_data\<close> binds the chunk to \<open>seq_num\<close> and the window size, an
  integer, to \<open>data\<close>; the constructor calls \<open>encode\<close> on it and raises. So, as the
  program stands, \<open>send_data\<close> never has a packet object to store, just as
  \<open>_receive_acks\<close> never has one to hand to \<open>_handle_ack\<close>. The steps of
  \<open>reachable\<close> say what the two methods do to the window whenever they run, and do
  not depend on this.
\<close>

lemma send_chunk_raises: "send_chunk md5 s chunk now = Inl AttributeError"
  by (simp add: send_chunk_def create_data_packet_def Packet_init_def)






section \<open>Properties of the receiver\<close>

lemma send_ack_state [simp]:
  "expected_seq_num (send_ack md5 r a dest) = expected_seq_num r"
  "receive_buffer (send_ack md5 r a dest) = receive_buffer r"
  "data_queue (send_ack md5 r a dest) = data_queue r"
  "rcv_window_size (send_ack md5 r a dest) = rcv_window_size r"
  by (simp_all add: send_ack_def Let_def split: sum.splits prod.splits)

lemma deliver_inv: "delivered_inv chunks r \<Longrightarrow> delivered_inv chunks (deliver r)"
proof (induction r rule: deliver.induct)
  case (1 r)
  show ?case
  proof (cases "map_of (receive_buffer r) (expected_seq_num r)")
    case None
    then show ?thesis using "1.prems" by simp
  next
    case (Some pkt)
    let ?e = "expected_seq_num r"
    let ?r' = "r\<lparr>data_queue := data_queue r @ [data pkt],
                  receive_buffer := AList.delete ?e (receive_buffer r),
                  expected_seq_num := ?e + 1\<rparr>"
    have mem: "(?e, pkt) \<in> set (receive_buffer r)" using Some by (rule map_of_SomeD)
    then have cc: "carries_chunk chunks pkt" and sn: "seq_num pkt = PyInt ?e"
      using "1.prems" by (auto simp: delivered_inv_def)
    from cc sn have lt: "?e < int (length chunks)" and d: "data pkt = chunks ! nat ?e"
      by (simp_all add: carries_chunk_def)
    have e0: "0 \<le> ?e" using "1.prems" by (simp add: delivered_inv_def)
    have q: "data_queue r = take (nat ?e) chunks" using "1.prems" by (simp add: delivered_inv_def)
    have "nat (?e + 1) = Suc (nat ?e)" using e0 by simp
    moreover have "nat ?e < length chunks" using lt e0 by simp
    ultimately have "take (nat (?e + 1)) chunks = take (nat ?e) chunks @ [chunks ! nat ?e]"
      by (simp add: take_Suc_conv_app_nth)
    moreover have "set (AList.delete ?e (receive_buffer r)) \<subseteq> set (receive_buffer r)"
      by (auto simp: AList.delete_eq)
    ultimately have "delivered_inv chunks ?r'"
      using "1.prems" lt e0 q d by (auto simp: delivered_inv_def)
    with Some have "delivered_inv chunks (deliver ?r')" by (rule "1.IH")
    then show ?thesis using Some by simp
  qed
qed

lemma set_update_subset: "set (AList.update k v al) \<subseteq> insert (k, v) (set al)"
  by (induction al) auto

lemma handle_data_packet_inv:
  assumes "delivered_inv chunks r" and "carries_chunk chunks pkt"
    and "handle_data_packet md5 r pkt addr = Inr r'"
  shows "delivered_inv chunks r'"
proof -
  obtain sn where sn: "seq_num pkt = PyInt sn"
    using assms(2) by (cases "seq_num pkt") (simp_all add: carries_chunk_def)
  obtain corrupt where c: "is_corrupt md5 pkt = Inr corrupt"
    using assms(3) by (cases "is_corrupt md5 pkt") (simp_all add: handle_data_packet_def)
  show ?thesis
  proof (cases corrupt)
    case True
    then show ?thesis using assms c by (simp add: handle_data_packet_def)
  next
    case False
    let ?r1 = "r\<lparr>packets_received := packets_received r + 1\<rparr>"
    show ?thesis
    proof (cases "sn < expected_seq_num r")
      case True
      then have "r' = send_ack md5 (?r1\<lparr>duplicates_received := duplicates_received ?r1 + 1\<rparr>)
          (max 0 (expected_seq_num r - 1)) addr"
        using assms(3) c False sn by (simp add: handle_data_packet_def Let_def)
      then show ?thesis using assms(1) by (simp add: delivered_inv_def)
    next
      case ge: False
      let ?r2 = "?r1\<lparr>receive_buffer := AList.update sn pkt (receive_buffer ?r1)\<rparr>"
      have r': "r' = send_ack md5 (deliver ?r2) (max 0 (expected_seq_num (deliver ?r2) - 1)) addr"
        using assms(3) c False sn ge by (simp add: handle_data_packet_def Let_def)
      have "delivered_inv chunks ?r2"
        using assms(1,2) sn set_update_subset [of sn pkt "receive_buffer r"]
        by (auto simp: delivered_inv_def)
      then have "delivered_inv chunks (deliver ?r2)" by (rule deliver_inv)
      then show ?thesis unfolding r' by (simp add: delivered_inv_def)
    qed
  qed
qed

lemma handle_all_inv:
  assumes "delivered_inv chunks r" and "\<forall>(pkt, addr) \<in> set arrivals. carries_chunk chunks pkt"
  shows "delivered_inv chunks (handle_all md5 r arrivals)"
  using assms
proof (induction arrivals arbitrary: r)
  case Nil
  then show ?case by simp
next
  case (Cons pa arrivals)
  obtain pkt addr where pa: "pa = (pkt, addr)" by (cases pa)
  show ?case
  proof (cases "handle_data_packet md5 r pkt addr")
    case (Inl e)
    then show ?thesis using Cons pa by simp
  next
    case (Inr r')
    have "delivered_inv chunks r'"
      using Cons.prems pa Inr by (auto intro: handle_data_packet_inv)
    then show ?thesis using Cons pa Inr by simp
  qed
qed

lemma pack_be2_bytes: "\<exists>b1 b2. pack_be 2 v = [b1, b2]"
  by (simp add: pack_be_numeral)

subsection \<open>What an acknowledgment confirms\<close>

text \<open>
  C2. The code at the input that breaks the claim: a receiver that has delivered
  nothing gets, as its first valid DATA packet, the one with sequence number 1. It
  buffers the packet, delivers nothing (\<open>expected_seq_num\<close> stays 0, the queue stays
  empty) and sends an ACK whose \<open>ack_num\<close> is \<open>max(0, 0 - 1) = 0\<close>, although
  sequence number 0 has not been delivered. This holds for every digest function; the
  checksum of the packet is the one \<open>calculate_checksum\<close> computes for it.
\<close>

theorem ack_zero_before_delivery:
  "handle_data_packet md5 (RDTReceiver_init 5)
     \<lparr>seq_num = PyInt 1, ack_num = PyInt 0, flags = PyInt 1, window_size = PyInt 5,
      data = [66], data_length = 1,
      checksum = from_bytes_be (take 2 (md5 [0, 0, 0, 1, 0, 0, 0, 0, 1, 0, 5, 0, 1, 66]))\<rparr>
     sender_addr =
   Inr \<lparr>rcv_window_size = 5, expected_seq_num = 0,
        receive_buffer =
          [(1, \<lparr>seq_num = PyInt 1, ack_num = PyInt 0, flags = PyInt 1, window_size = PyInt 5,
                data = [66], data_length = 1,
                checksum =
                  from_bytes_be (take 2 (md5 [0, 0, 0, 1, 0, 0, 0, 0, 1, 0, 5, 0, 1, 66]))\<rparr>)],
        data_queue = [], packets_received = 1, acks_sent = 1, duplicates_received = 0,
        rcv_sock =
          [([0, 0, 0, 0, 0, 0, 0, 0, 2, 0, 5, 0, 0] @
            pack_be 2 (from_bytes_be (take 2 (md5 [0, 0, 0, 0, 0, 0, 0, 0, 2, 0, 5, 0, 0]))),
            sender_addr)]\<rparr>
   \<and> (\<exists>ack. deserialize
         ([0, 0, 0, 0, 0, 0, 0, 0, 2, 0, 5, 0, 0] @
          pack_be 2 (from_bytes_be (take 2 (md5 [0, 0, 0, 0, 0, 0, 0, 0, 2, 0, 5, 0, 0])))) =
         Inr (Some ack) \<and> ack_num ack = PyInt 0 \<and> flags ack = PyInt ACK)"
proof -
  let ?c = "from_bytes_be (take 2 (md5 [0, 0, 0, 0, 0, 0, 0, 0, 2, 0, 5, 0, 0]))"
  have cr: "0 \<le> ?c" "?c < 65536"
    using from_bytes_be_nonneg [of "take 2 (md5 [0, 0, 0, 0, 0, 0, 0, 0, 2, 0, 5, 0, 0])"]
      from_bytes_be_take2 [of "md5 [0, 0, 0, 0, 0, 0, 0, 0, 2, 0, 5, 0, 0]"] by simp_all
  have h: "handle_data_packet md5 (RDTReceiver_init 5)
     \<lparr>seq_num = PyInt 1, ack_num = PyInt 0, flags = PyInt 1, window_size = PyInt 5,
      data = [66], data_length = 1,
      checksum = from_bytes_be (take 2 (md5 [0, 0, 0, 1, 0, 0, 0, 0, 1, 0, 5, 0, 1, 66]))\<rparr>
     sender_addr =
   Inr \<lparr>rcv_window_size = 5, expected_seq_num = 0,
        receive_buffer =
          [(1, \<lparr>seq_num = PyInt 1, ack_num = PyInt 0, flags = PyInt 1, window_size = PyInt 5,
                data = [66], data_length = 1,
                checksum =
                  from_bytes_be (take 2 (md5 [0, 0, 0, 1, 0, 0, 0, 0, 1, 0, 5, 0, 1, 66]))\<rparr>)],
        data_queue = [], packets_received = 1, acks_sent = 1, duplicates_received = 0,
        rcv_sock = [([0, 0, 0, 0, 0, 0, 0, 0, 2, 0, 5, 0, 0] @ pack_be 2 ?c, sender_addr)]\<rparr>"
  proof -
    let ?p = "\<lparr>seq_num = PyInt 1, ack_num = PyInt 0, flags = PyInt 1, window_size = PyInt 5,
      data = [66], data_length = 1,
      checksum = from_bytes_be (take 2 (md5 [0, 0, 0, 1, 0, 0, 0, 0, 1, 0, 5, 0, 1, 66]))\<rparr>"
    let ?a = "\<lparr>seq_num = PyInt 0, ack_num = PyInt 0, flags = PyInt 2, window_size = PyInt 5,
      data = [], data_length = 0, checksum = 0\<rparr>"
    have hp: "pack_IIBHH ?p = Inr [0, 0, 0, 1, 0, 0, 0, 0, 1, 0, 5, 0, 1]"
      by (simp add: pack_IIBHH_def pack_field_def pack_be_numeral)
    have ha: "pack_IIBHH ?a = Inr [0, 0, 0, 0, 0, 0, 0, 0, 2, 0, 5, 0, 0]"
      by (simp add: pack_IIBHH_def pack_field_def pack_be_numeral)
    have k: "is_corrupt md5 ?p = Inr False"
      by (simp add: is_corrupt_def calculate_checksum_def hp)
    have ca: "calculate_checksum md5 ?a = Inr ?c"
      by (simp add: calculate_checksum_def ha)
    have sa: "serialize md5 ?a =
        Inr (?a\<lparr>checksum := ?c\<rparr>, ([0, 0, 0, 0, 0, 0, 0, 0, 2, 0, 5, 0, 0] @ pack_be 2 ?c) @ data ?a)"
      using ca ha by (rule serialize_eq)
    have cp: "create_ack_packet (PyInt 0) (PyInt 5) = Inr ?a"
      by (simp add: create_ack_packet_def Packet_init_def ACK_def)
    show ?thesis
      unfolding handle_data_packet_def k
      by (simp add: RDTReceiver_init_def Let_def send_ack_def cp sa del: pack_be.simps)
  qed
  obtain b1 b2 where b: "pack_be 2 ?c = [b1, b2]" using pack_be2_bytes by blast
  have "\<exists>ack. deserialize ([0, 0, 0, 0, 0, 0, 0, 0, 2, 0, 5, 0, 0] @ pack_be 2 ?c) =
         Inr (Some ack) \<and> ack_num ack = PyInt 0 \<and> flags ack = PyInt ACK"
    unfolding b
    by (simp add: deserialize_def HEADER_SIZE_def Packet_init_def Let_def from_bytes_be_def ACK_def)
  with h show ?thesis by blast
qed

subsection \<open>In-order delivery without duplicates\<close>

text \<open>
  C7. Let the receiver, started fresh, handle any list of packets in which every
  packet with sequence number \<open>i\<close> carries chunk \<open>i\<close> of the sender's input, in any
  order and with any repetitions, corrupt or not. Then the delivery queue is exactly the
  chunks \<open>0, 1, ..., expected_seq_num - 1\<close>, each once and in this order, and the
  concatenation of the delivered payloads is a prefix of the sender's input.
\<close>

theorem in_order_delivery:
  assumes "\<forall>(pkt, addr) \<in> set arrivals. carries_chunk chunks pkt"
  shows "0 \<le> expected_seq_num (handle_all md5 (RDTReceiver_init W) arrivals) \<and>
         expected_seq_num (handle_all md5 (RDTReceiver_init W) arrivals) \<le> int (length chunks) \<and>
         data_queue (handle_all md5 (RDTReceiver_init W) arrivals) =
           take (nat (expected_seq_num (handle_all md5 (RDTReceiver_init W) arrivals))) chunks \<and>
         prefix (concat (data_queue (handle_all md5 (RDTReceiver_init W) arrivals))) (concat chunks)"
proof -
  let ?r = "handle_all md5 (RDTReceiver_init W) arrivals"
  have "delivered_inv chunks (RDTReceiver_init W)"
    by (simp add: delivered_inv_def RDTReceiver_init_def)
  then have inv: "delivered_inv chunks ?r" using assms by (rule handle_all_inv)
  then have q: "data_queue ?r = take (nat (expected_seq_num ?r)) chunks"
    by (simp add: delivered_inv_def)
  have "concat chunks = concat (take (nat (expected_seq_num ?r)) chunks)
      @ concat (drop (nat (expected_seq_num ?r)) chunks)"
    by (simp flip: concat_append)
  then have "prefix (concat (data_queue ?r)) (concat chunks)"
    unfolding q by (metis prefixI)
  with inv q show ?thesis by (simp add: delivered_inv_def)
qed

theorem in_order_delivery_witness:
  "data_queue (handle_all (\<lambda>content. [171, 205]) (RDTReceiver_init 5)
       [(\<lparr>seq_num = PyInt 1, ack_num = PyInt 0, flags = PyInt 1, window_size = PyInt 5,
           data = [66], data_length = 1, checksum = 43981\<rparr>, (''h'', 9)),
        (\<lparr>seq_num = PyInt 0, ack_num = PyInt 0, flags = PyInt 1, window_size = PyInt 5,
           data = [65], data_length = 1, checksum = 43981\<rparr>, (''h'', 9)),
        (\<lparr>seq_num = PyInt 1, ack_num = PyInt 0, flags = PyInt 1, window_size = PyInt 5,
           data = [66], data_length = 1, checksum = 43981\<rparr>, (''h'', 9))]) = [[65], [66]] \<and>
   prefix (concat (data_queue (handle_all (\<lambda>content. [171, 205]) (RDTReceiver_init 5)
       [(\<lparr>seq_num = PyInt 1, ack_num = PyInt 0, flags = PyInt 1, window_size = PyInt 5,
           data = [66], data_length = 1, checksum = 43981\<rparr>, (''h'', 9)),
        (\<lparr>seq_num = PyInt 0, ack_num = PyInt 0, flags = PyInt 1, window_size = PyInt 5,
           data = [65], data_length = 1, checksum = 43981\<rparr>, (''h'', 9)),
        (\<lparr>seq_num = PyInt 1, ack_num = PyInt 0, flags = PyInt 1, window_size = PyInt 5,
           data = [66], data_length = 1, checksum = 43981\<rparr>, (''h'', 9))]))) [65, 66]"
proof -
  let ?md5 = "\<lambda>content :: bytes. [171, 205 :: byte]"
  let ?arr = "[(\<lparr>seq_num = PyInt 1, ack_num = PyInt 0, flags = PyInt 1, window_size = PyInt 5,
           data = [66], data_length = 1, checksum = 43981\<rparr>, (''h'', 9 :: int)),
        (\<lparr>seq_num = PyInt 0, ack_num = PyInt 0, flags = PyInt 1, window_size = PyInt 5,
           data = [65], data_length = 1, checksum = 43981\<rparr>, (''h'', 9)),
        (\<lparr>seq_num = PyInt 1, ack_num = PyInt 0, flags = PyInt 1, window_size = PyInt 5,
           data = [66], data_length = 1, checksum = 43981\<rparr>, (''h'', 9))]"
  have hyp: "\<forall>(pkt, addr) \<in> set ?arr. carries_chunk [[65], [66]] pkt"
    by (simp add: carries_chunk_def)
  note t = in_order_delivery [OF hyp, of ?md5 5]
  have e: "expected_seq_num (handle_all ?md5 (RDTReceiver_init 5) ?arr) = 2"
    by (simp add: handle_data_packet_def is_corrupt_def calculate_checksum_def pack_IIBHH_def
        pack_field_def from_bytes_be_def RDTReceiver_init_def Let_def)
  from t have q: "data_queue (handle_all ?md5 (RDTReceiver_init 5) ?arr) = [[65], [66]]"
    unfolding e by simp
  from t q show ?thesis by simp
qed


section \<open>Retransmission\<close>

lemma same_but_checksum_refl [simp]: "same_but_checksum p p"
  by (simp add: same_but_checksum_def)






lemma buffer_kept_refl [simp]: "buffer_kept buf buf"
  by (simp add: buffer_kept_def list_all2_same split_beta)










section \<open>The completion loop\<close>

lemma receive_loop_idle_run:
  "all_data \<noteq> [] \<Longrightarrow> list_all idle ps \<Longrightarrow> \<forall>p\<in>set ps. t_loop p - t_last < tmo \<Longrightarrow>
   c \<le> 200 \<Longrightarrow> 200 < c + int (length ps) \<Longrightarrow>
   receive_loop tmo all_data t_last c (ps @ rest) = Some (Declared_complete, all_data)"
proof (induction ps arbitrary: c)
  case Nil
  then show ?case by simp
next
  case (Cons p ps)
  show ?case
  proof (cases "c + 1 > 200")
    case True
    then show ?thesis using Cons.prems by (simp add: idle_def)
  next
    case False
    then have "receive_loop tmo all_data t_last (c + 1) (ps @ rest) =
        Some (Declared_complete, all_data)"
      using Cons.prems by (intro Cons.IH) simp_all
    then show ?thesis using Cons.prems False by (simp add: idle_def)
  qed
qed

lemma length_idle_polls [simp]: "length (idle_polls n t k) = n"
  by (induction n t k rule: idle_polls.induct) simp_all

lemma idle_idle_polls: "list_all idle (idle_polls n t k)"
  by (induction n t k rule: idle_polls.induct) (simp_all add: idle_def payload_def)

lemma t_loop_idle_polls: "p \<in> set (idle_polls n t k) \<Longrightarrow> t_loop p \<le> t + 0.2 * real n"
proof (induction n t k rule: idle_polls.induct)
  case (1 t k)
  then show ?case by simp
next
  case (2 n t k)
  show ?case
  proof (cases "p \<in> set (idle_polls n (t + 0.2) k)")
    case True
    then have "t_loop p \<le> (t + 0.2) + 0.2 * real n" by (rule "2.IH")
    then show ?thesis by (simp add: field_simps)
  next
    case False
    then have "t_loop p = t + 0.2" using "2.prems" by auto
    then show ?thesis by (simp add: field_simps)
  qed
qed

text \<open>
  C9. As stated the claim fails, in both respects. With \<open>timeout = 60\<close>, one payload
  is taken from the queue at time 0.2 and 201 polls, 0.2 seconds apart, find nothing:
  at the last of them the method declares the transfer complete and returns the
  payload, when the clock in the loop condition was last read at most 40.2 seconds
  after the last activity, less than \<open>timeout\<close>. With \<open>timeout = 5\<close> and nothing
  ever delivered, the loop ends at time 5 and the method returns the empty string.
\<close>

theorem receive_all_data_counterexample:
  "receive_all_data 60 0
     (\<lparr>t_loop = 0.1, seen_before = 0, got = Some [65], t_got = 0.2, seen_after = 1,
       t_arrival = 0.2\<rparr> # idle_polls 201 0.2 1) = Some (Declared_complete, [65]) \<and>
   t_loop (last (idle_polls 201 0.2 1)) - 0.2 < 60 \<and>
   receive_all_data 5 0
     [\<lparr>t_loop = 5, seen_before = 0, got = None, t_got = 5, seen_after = 0, t_arrival = 5\<rparr>]
     = Some (Timed_out, [])"
proof -
  have h: "\<forall>p\<in>set (idle_polls 201 0.2 1). t_loop p - 0.2 < 60"
  proof
    fix p assume "p \<in> set (idle_polls 201 0.2 1)"
    then have "t_loop p \<le> 0.2 + 0.2 * real 201" by (rule t_loop_idle_polls)
    then show "t_loop p - 0.2 < 60" by simp
  qed
  then have "receive_loop 60 [65] 0.2 0 (idle_polls 201 0.2 1 @ []) =
      Some (Declared_complete, [65])"
    by (intro receive_loop_idle_run idle_idle_polls) simp_all
  then have a: "receive_all_data 60 0
     (\<lparr>t_loop = 0.1, seen_before = 0, got = Some [65], t_got = 0.2, seen_after = 1,
       t_arrival = 0.2\<rparr> # idle_polls 201 0.2 1) = Some (Declared_complete, [65])"
    by (simp add: receive_all_data_def payload_def)
  have "idle_polls 201 0.2 1 \<noteq> []"
    using length_idle_polls [of 201 "0.2" 1] by (metis length_0_conv zero_neq_numeral)
  then have "last (idle_polls 201 0.2 1) \<in> set (idle_polls 201 0.2 1)" by (rule last_in_set)
  with h have b: "t_loop (last (idle_polls 201 0.2 1)) - 0.2 < 60" by blast
  have c: "receive_all_data 5 0
     [\<lparr>t_loop = 5, seen_before = 0, got = None, t_got = 5, seen_after = 0, t_arrival = 5\<rparr>]
     = Some (Timed_out, [])"
    by (simp add: receive_all_data_def)
  from a b c show ?thesis by simp
qed

lemma delivered_snoc: "delivered (ps @ [p]) = delivered ps @ payload (got p)"
  by (simp add: delivered_def)

lemma last_activity_snoc:
  "last_activity t0 (ps @ [p]) = (if idle p then last_activity t0 ps else activity_time p)"
  by (simp add: last_activity_def Let_def)

lemma idle_run_snoc: "idle_run (ps @ [p]) = (if idle p then Suc (idle_run ps) else 0)"
  by (simp add: idle_run_def)

lemma receive_loop_stop:
  "stops tmo t0 pre p = Some e \<Longrightarrow>
   receive_loop tmo (delivered pre) (last_activity t0 pre) (int (idle_run pre)) (p # ps) =
     Some (e, delivered pre)"
  by (auto simp: stops_def idle_def split: if_splits)

lemma receive_loop_go:
  "stops tmo t0 pre p = None \<Longrightarrow>
   receive_loop tmo (delivered pre) (last_activity t0 pre) (int (idle_run pre)) (p # ps) =
   receive_loop tmo (delivered (pre @ [p])) (last_activity t0 (pre @ [p]))
     (int (idle_run (pre @ [p]))) ps"
  by (auto simp: stops_def idle_def delivered_snoc last_activity_snoc idle_run_snoc
      activity_time_def ac_simps split: if_splits)

lemma receive_loop_exact:
  "receive_loop tmo (delivered pre) (last_activity t0 pre) (int (idle_run pre)) rest =
     Some (e, out) \<longleftrightarrow>
   (\<exists>k<length rest.
      (\<forall>j<k. stops tmo t0 (pre @ take j rest) (rest ! j) = None) \<and>
      stops tmo t0 (pre @ take k rest) (rest ! k) = Some e \<and>
      out = delivered (pre @ take k rest))"
proof (induction rest arbitrary: pre)
  case Nil
  then show ?case by simp
next
  case (Cons p ps)
  show ?case
  proof (cases "stops tmo t0 pre p")
    case (Some e')
    have "(\<exists>k<length (p # ps).
        (\<forall>j<k. stops tmo t0 (pre @ take j (p # ps)) ((p # ps) ! j) = None) \<and>
        stops tmo t0 (pre @ take k (p # ps)) ((p # ps) ! k) = Some e \<and>
        out = delivered (pre @ take k (p # ps))) \<longleftrightarrow> e = e' \<and> out = delivered pre"
    proof
      assume "\<exists>k<length (p # ps).
        (\<forall>j<k. stops tmo t0 (pre @ take j (p # ps)) ((p # ps) ! j) = None) \<and>
        stops tmo t0 (pre @ take k (p # ps)) ((p # ps) ! k) = Some e \<and>
        out = delivered (pre @ take k (p # ps))"
      then obtain k where k: "\<forall>j<k. stops tmo t0 (pre @ take j (p # ps)) ((p # ps) ! j) = None"
        "stops tmo t0 (pre @ take k (p # ps)) ((p # ps) ! k) = Some e"
        "out = delivered (pre @ take k (p # ps))" by blast
      have "k = 0"
      proof (rule ccontr)
        assume "k \<noteq> 0"
        then have "stops tmo t0 (pre @ take 0 (p # ps)) ((p # ps) ! 0) = None" using k(1) by blast
        then show False using Some by simp
      qed
      then show "e = e' \<and> out = delivered pre" using k Some by simp
    next
      assume "e = e' \<and> out = delivered pre"
      then show "\<exists>k<length (p # ps).
        (\<forall>j<k. stops tmo t0 (pre @ take j (p # ps)) ((p # ps) ! j) = None) \<and>
        stops tmo t0 (pre @ take k (p # ps)) ((p # ps) ! k) = Some e \<and>
        out = delivered (pre @ take k (p # ps))"
        using Some by (intro exI [of _ 0]) simp
    qed
    then show ?thesis using receive_loop_stop [OF Some, of ps] by auto
  next
    case None
    have "(\<exists>k<length (p # ps).
        (\<forall>j<k. stops tmo t0 (pre @ take j (p # ps)) ((p # ps) ! j) = None) \<and>
        stops tmo t0 (pre @ take k (p # ps)) ((p # ps) ! k) = Some e \<and>
        out = delivered (pre @ take k (p # ps))) \<longleftrightarrow>
      (\<exists>k<length ps.
        (\<forall>j<k. stops tmo t0 ((pre @ [p]) @ take j ps) (ps ! j) = None) \<and>
        stops tmo t0 ((pre @ [p]) @ take k ps) (ps ! k) = Some e \<and>
        out = delivered ((pre @ [p]) @ take k ps))"
    proof
      assume "\<exists>k<length (p # ps).
        (\<forall>j<k. stops tmo t0 (pre @ take j (p # ps)) ((p # ps) ! j) = None) \<and>
        stops tmo t0 (pre @ take k (p # ps)) ((p # ps) ! k) = Some e \<and>
        out = delivered (pre @ take k (p # ps))"
      then obtain k where k: "k < length (p # ps)"
        "\<forall>j<k. stops tmo t0 (pre @ take j (p # ps)) ((p # ps) ! j) = None"
        "stops tmo t0 (pre @ take k (p # ps)) ((p # ps) ! k) = Some e"
        "out = delivered (pre @ take k (p # ps))" by blast
      have "k \<noteq> 0" using k(3) None by (cases k) auto
      then obtain k' where k': "k = Suc k'" by (cases k) auto
      have "\<forall>j<k'. stops tmo t0 ((pre @ [p]) @ take j ps) (ps ! j) = None"
      proof (intro allI impI)
        fix j assume "j < k'"
        then have "Suc j < k" using k' by simp
        with k(2) have "stops tmo t0 (pre @ take (Suc j) (p # ps)) ((p # ps) ! Suc j) = None"
          by blast
        then show "stops tmo t0 ((pre @ [p]) @ take j ps) (ps ! j) = None" by simp
      qed
      then show "\<exists>k<length ps.
        (\<forall>j<k. stops tmo t0 ((pre @ [p]) @ take j ps) (ps ! j) = None) \<and>
        stops tmo t0 ((pre @ [p]) @ take k ps) (ps ! k) = Some e \<and>
        out = delivered ((pre @ [p]) @ take k ps)"
        using k k' by (intro exI [of _ k']) simp
    next
      assume "\<exists>k<length ps.
        (\<forall>j<k. stops tmo t0 ((pre @ [p]) @ take j ps) (ps ! j) = None) \<and>
        stops tmo t0 ((pre @ [p]) @ take k ps) (ps ! k) = Some e \<and>
        out = delivered ((pre @ [p]) @ take k ps)"
      then obtain k where k: "k < length ps"
        "\<forall>j<k. stops tmo t0 ((pre @ [p]) @ take j ps) (ps ! j) = None"
        "stops tmo t0 ((pre @ [p]) @ take k ps) (ps ! k) = Some e"
        "out = delivered ((pre @ [p]) @ take k ps)" by blast
      have "\<forall>j<Suc k. stops tmo t0 (pre @ take j (p # ps)) ((p # ps) ! j) = None"
      proof (intro allI impI)
        fix j assume j: "j < Suc k"
        show "stops tmo t0 (pre @ take j (p # ps)) ((p # ps) ! j) = None"
        proof (cases j)
          case 0
          then show ?thesis using None by simp
        next
          case (Suc j')
          then have "j' < k" using j by simp
          with k(2) have "stops tmo t0 ((pre @ [p]) @ take j' ps) (ps ! j') = None" by blast
          then show ?thesis using Suc by simp
        qed
      qed
      then show "\<exists>k<length (p # ps).
        (\<forall>j<k. stops tmo t0 (pre @ take j (p # ps)) ((p # ps) ! j) = None) \<and>
        stops tmo t0 (pre @ take k (p # ps)) ((p # ps) ! k) = Some e \<and>
        out = delivered (pre @ take k (p # ps))"
        using k by (intro exI [of _ "Suc k"]) simp
    qed
    then show ?thesis
      unfolding receive_loop_go [OF None, of ps] Cons.IH [of "pre @ [p]"] by simp
  qed
qed

text \<open>
  C9, amended. \<open>receive_all_data\<close> stops at the first turn of its loop at which
  either (a) the clock read in the loop condition is \<open>timeout\<close> or more past the last
  activity (the last payload taken from the queue or advance of \<open>packets_received\<close>
  seen, or the start of the call), whether or not a byte has been delivered: it then
  returns without declaring anything; or (b) the turn finds neither a payload nor an
  advance, at least one byte has been delivered, and at least 200 such turns came right
  before it, whatever \<open>timeout\<close> is: it then declares the transfer complete. It stops
  at no other turn, and what it returns is the concatenation, in order, of the payloads
  taken from the queue before that turn.
\<close>

theorem receive_all_data_exact:
  "receive_all_data tmo t0 polls = Some (e, out) \<longleftrightarrow>
   (\<exists>k<length polls.
      (\<forall>j<k. stops tmo t0 (take j polls) (polls ! j) = None) \<and>
      stops tmo t0 (take k polls) (polls ! k) = Some e \<and>
      out = delivered (take k polls))"
  using receive_loop_exact [of tmo "[]" t0 polls e out]
  by (simp add: receive_all_data_def delivered_def last_activity_def idle_run_def)

theorem receive_all_data_exact_witness:
  "receive_all_data 5 0
     [\<lparr>t_loop = 0.1, seen_before = 0, got = Some [65], t_got = 0.2, seen_after = 1,
       t_arrival = 0.2\<rparr>,
      \<lparr>t_loop = 5.2, seen_before = 1, got = None, t_got = 5.2, seen_after = 1,
       t_arrival = 5.2\<rparr>] = Some (Timed_out, [65])"
proof -
  let ?d = "\<lparr>t_loop = 0.1, seen_before = 0, got = Some [65], t_got = 0.2, seen_after = 1,
       t_arrival = 0.2 :: real\<rparr>"
  let ?l = "\<lparr>t_loop = 5.2, seen_before = 1, got = None, t_got = 5.2, seen_after = 1,
       t_arrival = 5.2 :: real\<rparr>"
  have s0: "stops 5 0 [] ?d = None"
    by (simp add: stops_def last_activity_def idle_def payload_def)
  have s1: "stops 5 0 [?d] ?l = Some Timed_out"
    by (simp add: stops_def last_activity_def idle_def payload_def activity_time_def)
  have "\<exists>k<length [?d, ?l].
      (\<forall>j<k. stops 5 0 (take j [?d, ?l]) ([?d, ?l] ! j) = None) \<and>
      stops 5 0 (take k [?d, ?l]) ([?d, ?l] ! k) = Some Timed_out \<and>
      [65] = delivered (take k [?d, ?l])"
    using s0 s1 by (intro exI [of _ 1]) (simp add: delivered_def payload_def)
  then show ?thesis by (rule iffD2 [OF receive_all_data_exact])
qed


end
